theory Spec2Isabelle
  imports Complex_Main "HOL-Library.Word"
begin

section \<open>Python values, exceptions and NumPy helpers\<close>

text \<open>
  The development embeds \<^verbatim>\<open>celer/homotopy.py\<close>: the group converter
  \<^verbatim>\<open>_grp_converter\<close>, the argument validation and path loop of \<^verbatim>\<open>celer_path\<close>,
  and the path loop of \<^verbatim>\<open>mtl_path\<close>. Python integers are \<open>int\<close>; floating-point
  numbers are abstracted to \<open>real\<close> (no NaN, no rounding), and only compared, never
  computed with. The compiled inner solvers (\<^verbatim>\<open>celer\<close>, \<^verbatim>\<open>celer_grp\<close>,
  \<^verbatim>\<open>newton_celer\<close>, \<^verbatim>\<open>celer_mtl\<close>) and the floating-point linear algebra are
  not part of this file: they enter the model as parameters.
\<close>

datatype py_error =
  ValueError | ZeroDivisionError | IndexError | UnboundLocalError | OverflowError | TypeError

type_synonym vec = "real list"

subsection \<open>The group converter\<close>

text \<open>
  The \<^verbatim>\<open>groups\<close> argument, in the three documented forms (an integer group size, a
  list of group sizes, a list of lists of feature indices) and anything else. The branch
  tests of \<^verbatim>\<open>_grp_converter\<close> look at \<^verbatim>\<open>groups[0]\<close> only; lists mixing integers
  and lists are outside this type. The empty list is both \<open>GSizes []\<close> and \<open>GLists []\<close>.
  \<open>GOther\<close> stands for every other object, among them a list whose first element is
  neither an integer nor a list, such as \<^verbatim>\<open>[1.5, 2]\<close>.
\<close>

datatype groups_arg = GInt int | GSizes "int list" | GLists "int list list" | GOther

text \<open>\<^verbatim>\<open>.astype(np.int32)\<close>: the value is wrapped to 32-bit two's complement.\<close>

definition astype_int32 :: "int \<Rightarrow> int" where
  "astype_int32 x = sint (word_of_int x :: 32 word)"

text \<open>\<^verbatim>\<open>np.arange(n)\<close>: the integers from 0 up to \<open>n - 1\<close>, none when \<open>n \<le> 0\<close>.\<close>

definition arange :: "int \<Rightarrow> int list" where
  "arange n = [0..n - 1]"

text \<open>\<^verbatim>\<open>np.cumsum\<close>: the running sums (on NumPy's 64-bit integers, taken here without overflow).\<close>

fun cumsum_from :: "int \<Rightarrow> int list \<Rightarrow> int list" where
  "cumsum_from acc [] = []"
| "cumsum_from acc (x # xs) = (acc + x) # cumsum_from (acc + x) xs"

definition cumsum :: "int list \<Rightarrow> int list" where
  "cumsum xs = cumsum_from 0 xs"

text \<open>
  \<^verbatim>\<open>_grp_converter(groups, n_features)\<close>, returning \<open>(grp_ptr, grp_indices)\<close>.
  \<^verbatim>\<open>n_features % grp_size\<close> raises ZeroDivisionError for a zero group size,
  \<^verbatim>\<open>grp_size * np.arange(n_groups + 1)\<close> raises OverflowError for a group size that
  does not fit a 64-bit integer, and \<^verbatim>\<open>groups[0]\<close> raises IndexError on the empty list.
  Python's \<^verbatim>\<open>%\<close> and \<^verbatim>\<open>//\<close> round towards minus infinity, as \<open>mod\<close> and
  \<open>div\<close> on \<open>int\<close> do.
\<close>

definition grp_converter :: "groups_arg \<Rightarrow> int \<Rightarrow> py_error + (int list \<times> int list)" where
  "grp_converter groups n_features =
     (case groups of
        GInt grp_size \<Rightarrow>
          if grp_size = 0 then Inl ZeroDivisionError
          else if n_features mod grp_size \<noteq> 0 then Inl ValueError
          else if grp_size < - (2 ^ 63) \<or> 2 ^ 63 \<le> grp_size then Inl OverflowError
          else
            let n_groups = n_features div grp_size;
                grp_ptr = map (\<lambda>i. grp_size * i) (arange (n_groups + 1));
                grp_indices = arange n_features
            in Inr (map astype_int32 grp_ptr, map astype_int32 grp_indices)
      | GSizes [] \<Rightarrow> Inl IndexError
      | GSizes (s # ss) \<Rightarrow>
          let grp_indices = map astype_int32 (arange n_features);
              grp_ptr = cumsum (0 # s # ss)
          in Inr (map astype_int32 grp_ptr, map astype_int32 grp_indices)
      | GLists [] \<Rightarrow> Inl IndexError
      | GLists (l # ls) \<Rightarrow>
          let grp_sizes = map (\<lambda>ls. int (length ls)) (l # ls);
              grp_ptr = cumsum (0 # grp_sizes);
              grp_indices = concat (l # ls)
          in Inr (map astype_int32 grp_ptr, map astype_int32 grp_indices)
      | GOther \<Rightarrow> Inl ValueError)"

text \<open>
  The Partition invariant of the data model: the boundaries are strictly increasing, start
  at 0 and end at \<open>n_features\<close>, and the index array is a permutation of
  \<open>[0, n_features)\<close>.
\<close>

definition partition_inv :: "int \<Rightarrow> int list \<times> int list \<Rightarrow> bool" where
  "partition_inv n_features p =
     (case p of (grp_ptr, grp_indices) \<Rightarrow>
        grp_ptr \<noteq> [] \<and> sorted_wrt (<) grp_ptr \<and> hd grp_ptr = 0 \<and> last grp_ptr = n_features \<and>
        distinct grp_indices \<and> set grp_indices = {0..<n_features})"

text \<open>
  The features of group \<open>g\<close>, as the path code slices them:
  \<^verbatim>\<open>grp_indices[grp_ptr[g]:grp_ptr[g + 1]]\<close>.
\<close>

definition grp_members :: "int list \<Rightarrow> int list \<Rightarrow> nat \<Rightarrow> int list" where
  "grp_members grp_ptr grp_indices g =
     take (nat (grp_ptr ! Suc g - grp_ptr ! g)) (drop (nat (grp_ptr ! g)) grp_indices)"

definition one_group_each :: "int \<Rightarrow> int list \<times> int list \<Rightarrow> bool" where
  "one_group_each n_features p =
     (\<forall>f\<in>{0..<n_features}. \<exists>!g. Suc g < length (fst p) \<and> f \<in> set (grp_members (fst p) (snd p) g))"

subsection \<open>Arrays in a store\<close>

text \<open>
  The path functions hand NumPy arrays to solvers that update them in place, so arrays live
  in a store. A buffer is a list of lines: the columns of \<^verbatim>\<open>coefs\<close>, the rows of
  \<^verbatim>\<open>thetas\<close>, or the single line of a one-dimensional array. A reference names one
  line of one buffer: \<^verbatim>\<open>coefs[:, t]\<close> is the view \<open>(coefs, t)\<close>, which shares
  memory with \<^verbatim>\<open>coefs\<close>, and an array of its own is line 0 of its buffer.
  \<^verbatim>\<open>.copy()\<close> allocates a new buffer.
\<close>

type_synonym addr = nat

type_synonym ref = "addr \<times> nat"

record 'a heap =
  cells :: "addr \<Rightarrow> 'a list"
  fresh :: addr

definition alloc :: "'a list \<Rightarrow> 'a heap \<Rightarrow> addr \<times> 'a heap" where
  "alloc ls h = (fresh h, h\<lparr>cells := (cells h)(fresh h := ls), fresh := Suc (fresh h)\<rparr>)"

definition rd :: "'a heap \<Rightarrow> ref \<Rightarrow> 'a" where
  "rd h r = cells h (fst r) ! snd r"

definition wr :: "ref \<Rightarrow> 'a \<Rightarrow> 'a heap \<Rightarrow> 'a heap" where
  "wr r v h = h\<lparr>cells := (cells h)(fst r := (cells h (fst r))[snd r := v])\<rparr>"

definition new_array :: "'a \<Rightarrow> 'a heap \<Rightarrow> ref \<times> 'a heap" where
  "new_array v h = (case alloc [v] h of (a, h') \<Rightarrow> ((a, 0), h'))"

definition copy :: "ref \<Rightarrow> 'a heap \<Rightarrow> ref \<times> 'a heap" where
  "copy r h = new_array (rd h r) h"

definition empty_heap :: "'a heap" where
  "empty_heap = \<lparr>cells = (\<lambda>_. []), fresh = 0\<rparr>"

text \<open>
  The \<^verbatim>\<open>for t in range(n)\<close> loops: the body runs for each index in turn, and an
  exception raised by the body ends the loop.
\<close>

fun run_path :: "(nat \<Rightarrow> 's \<Rightarrow> 'e + 's) \<Rightarrow> nat list \<Rightarrow> 's \<Rightarrow> 'e + 's" where
  "run_path body [] s = Inr s"
| "run_path body (t # ts) s =
     (case body t s of Inl e \<Rightarrow> Inl e | Inr s' \<Rightarrow> run_path body ts s')"

text \<open>\<^verbatim>\<open>len(np.where(w != 0)[0])\<close> and \<^verbatim>\<open>(w != 0.).sum()\<close>.\<close>

definition count_nonzero :: "real list \<Rightarrow> int" where
  "count_nonzero w = int (length (filter (\<lambda>v. v \<noteq> 0) w))"

text \<open>\<^verbatim>\<open>np.sort(alphas)[::-1]\<close>.\<close>

definition sort_descending :: "real list \<Rightarrow> real list" where
  "sort_descending alphas = rev (sort alphas)"

subsection \<open>The arguments of \<^verbatim>\<open>celer_path\<close>\<close>

datatype problem = LASSO | LOGREG | GRPLASSO

datatype solver_kind = Celer | CelerGrp | NewtonCeler

text \<open>
  The design matrix is the list of its columns, each of \<open>a_n_samples\<close> entries, so
  \<open>n_features\<close> is its length and \<open>a_n_samples\<close> is \<^verbatim>\<open>X.shape[0]\<close>;
  \<open>a_is_sparse\<close> tells whether it is given in sparse format. The arguments that are only
  passed on to the solver (\<^verbatim>\<open>max_iter\<close>, \<^verbatim>\<open>gap_freq\<close>, \<^verbatim>\<open>max_epochs\<close>,
  \<^verbatim>\<open>prune\<close>, the verbosity flags) are part of the solver parameter below.
\<close>

record celer_args =
  a_X :: "vec list"
  a_n_samples :: nat
  a_is_sparse :: bool
  a_y :: vec
  a_pb :: string
  a_eps :: real
  a_n_alphas :: int
  a_alphas :: "vec option"
  a_coef_init :: "vec option"
  a_p0 :: int
  a_tol :: real
  a_groups :: "groups_arg option"
  a_return_thetas :: bool
  a_use_PN :: bool
  a_X_offset :: "vec option"
  a_X_scale :: "vec option"
  a_return_n_iter :: bool
  a_positive :: bool

text \<open>
  One call of an inner solver: which solver, the penalty, the first working-set size
  \<^verbatim>\<open>p0\<close>, the norms, and the arrays it may update in place (\<^verbatim>\<open>w\<close>, \<^verbatim>\<open>Xw\<close> and
  \<^verbatim>\<open>theta\<close>; \<^verbatim>\<open>newton_celer\<close> is given \<^verbatim>\<open>w\<close> only).
\<close>

record solver_call =
  sc_kind :: solver_kind
  sc_alpha :: real
  sc_p0 :: int
  sc_norms :: vec
  sc_w :: ref
  sc_Xw :: "ref option"
  sc_theta :: "ref option"

text \<open>
  What a solver returns, as the path code reads it: the contents of \<^verbatim>\<open>sol[0]\<close> and
  \<^verbatim>\<open>sol[1]\<close> and the list of gaps \<^verbatim>\<open>sol[2]\<close>.
\<close>

type_synonym sol = "vec \<times> vec \<times> real list"

text \<open>
  The code that is not in the repository's Python source, as parameters: the values of
  NumPy's \<^verbatim>\<open>geomspace(1, eps, n_alphas)\<close> (for \<open>eps\<close> other than 0) and of
  \<^verbatim>\<open>norm(v, ord=2)\<close>, the operator norm of a group of columns, the column norms
  (\<^verbatim>\<open>compute_norms_X_col\<close>), the entries that \<^verbatim>\<open>compute_Xw\<close> writes into
  \<^verbatim>\<open>Xw\<close>, the entries of the first dual point computed from \<^verbatim>\<open>Xw\<close> and the
  penalty, and the compiled solvers, which take the store and return it updated. The
  exceptions that the NumPy and scikit-learn calls raise on the way are in the definitions
  below, not in the parameters.
\<close>

record kernels =
  k_geomspace :: "real \<Rightarrow> nat \<Rightarrow> vec"
  k_norm_2 :: "vec \<Rightarrow> real"
  k_grp_norm :: "vec list \<Rightarrow> real"
  k_norms_X_col :: vec
  k_compute_Xw :: "problem \<Rightarrow> vec \<Rightarrow> nat \<Rightarrow> real"
  k_theta_init :: "problem \<Rightarrow> vec \<Rightarrow> real \<Rightarrow> nat \<Rightarrow> real"
  k_solve :: "solver_call \<Rightarrow> vec heap \<Rightarrow> vec heap \<times> sol"

text \<open>
  The effects of the path loop that are not in its return value: each solver call with the
  store before and after it and what it returned.
\<close>

record ('c, 'a, 's) event =
  ev_call :: 'c
  ev_before :: "'a heap"
  ev_after :: "'a heap"
  ev_sol :: 's

subsection \<open>Shapes\<close>

text \<open>
  The length of \<^verbatim>\<open>u * v\<close> and \<^verbatim>\<open>u / v\<close> for one-dimensional arrays of \<open>m\<close> and
  \<open>n\<close> entries: NumPy broadcasts an array of one entry and raises ValueError for other
  lengths that differ.
\<close>

definition np_broadcast :: "nat \<Rightarrow> nat \<Rightarrow> py_error + nat" where
  "np_broadcast m n =
     (if m = n \<or> n = 1 then Inr m else if m = 1 then Inr n else Inl ValueError)"

text \<open>
  The value stored by \<^verbatim>\<open>a[...] = v\<close> into a one-dimensional view of \<open>n\<close> entries:
  an array of one entry is broadcast, another length raises ValueError.
\<close>

definition np_assign :: "nat \<Rightarrow> vec \<Rightarrow> py_error + vec" where
  "np_assign n v =
     (if length v = n then Inr v
      else if length v = 1 then Inr (replicate n (v ! 0))
      else Inl ValueError)"

definition dot :: "vec \<Rightarrow> vec \<Rightarrow> real" where
  "dot u v = sum_list (map2 (*) u v)"

text \<open>
  \<^verbatim>\<open>X.T @ v\<close> and \<^verbatim>\<open>X.T.dot(v)\<close> for a matrix of \<open>n_samples\<close> rows: a vector of
  another length raises ValueError.
\<close>

definition XT_dot :: "nat \<Rightarrow> vec list \<Rightarrow> vec \<Rightarrow> py_error + vec" where
  "XT_dot n_samples X v =
     (if length v \<noteq> n_samples then Inl ValueError else Inr (map (\<lambda>col. dot col v) X))"

definition norm_inf :: "vec \<Rightarrow> real" where
  "norm_inf v = Max (set (map abs v))"

subsection \<open>Validation\<close>

text \<open>\<^verbatim>\<open>str.lower\<close> on ASCII strings.\<close>

definition lower_char :: "char \<Rightarrow> char" where
  "lower_char c =
     (case map_of (zip ''ABCDEFGHIJKLMNOPQRSTUVWXYZ'' ''abcdefghijklmnopqrstuvwxyz'') c of
        Some l \<Rightarrow> l
      | None \<Rightarrow> c)"

definition lower :: "string \<Rightarrow> string" where
  "lower s = map lower_char s"

text \<open>
  Lines 138 to 155 of \<^verbatim>\<open>celer_path\<close>: the problem name, the labels of the logistic
  problem, and the groups of the group Lasso.
\<close>

definition celer_validate ::
  "celer_args \<Rightarrow> py_error + (problem \<times> (int list \<times> int list) option)" where
  "celer_validate a =
     (if lower (a_pb a) \<notin> set [''lasso'', ''logreg'', ''grouplasso''] then Inl ValueError
      else if lower (a_pb a) = ''lasso'' then Inr (LASSO, None)
      else if lower (a_pb a) = ''logreg'' then
        (if set (a_y a) - set [- 1, 1] \<noteq> {} then Inl ValueError else Inr (LOGREG, None))
      else if lower (a_pb a) = ''grouplasso'' then
        (case a_groups a of
           None \<Rightarrow> Inl ValueError
         | Some g \<Rightarrow>
             (case grp_converter g (int (length (a_X a))) of
                Inl e \<Rightarrow> Inl e
              | Inr p \<Rightarrow> Inr (GRPLASSO, Some p)))
      else Inl ValueError)"

text \<open>
  Lines 159 to 162: scikit-learn's \<^verbatim>\<open>check_array\<close> raises ValueError for a matrix
  without a sample or without a feature, and for a \<open>y\<close> without an entry. (It also
  rejects entries that are not finite, which the reals do not have.)
\<close>

definition check_arrays :: "celer_args \<Rightarrow> py_error + unit" where
  "check_arrays a =
     (if a_n_samples a = 0 \<or> a_X a = [] then Inl ValueError
      else if a_y a = [] then Inl ValueError
      else Inr ())"

text \<open>
  Lines 166 to 172: the length of \<^verbatim>\<open>X_sparse_scaling\<close>. \<^verbatim>\<open>X_offset / X_scale\<close>
  raises TypeError when \<^verbatim>\<open>X_scale\<close> is None.
\<close>

definition sparse_scaling_len :: "celer_args \<Rightarrow> py_error + nat" where
  "sparse_scaling_len a =
     (case a_X_offset a of
        None \<Rightarrow> Inr (length (a_X a))
      | Some X_offset \<Rightarrow>
          (case a_X_scale a of
             None \<Rightarrow> Inl TypeError
           | Some X_scale \<Rightarrow> np_broadcast (length X_offset) (length X_scale)))"

subsection \<open>The penalty grid and the norms\<close>

text \<open>A Python slice \<^verbatim>\<open>xs[lo:hi]\<close>, with negative bounds counted from the end.\<close>

definition py_slice :: "'a list \<Rightarrow> int \<Rightarrow> int \<Rightarrow> 'a list" where
  "py_slice xs lo hi =
     (let n = int (length xs);
          l = (if lo < 0 then max (lo + n) 0 else min lo n);
          h = (if hi < 0 then max (hi + n) 0 else min hi n)
      in take (nat (h - l)) (drop (nat l) xs))"

text \<open>
  \<^verbatim>\<open>X[:, js]\<close>: the columns with the given indices; an index outside
  \<open>[-n_features, n_features)\<close> raises IndexError.
\<close>

definition take_columns :: "vec list \<Rightarrow> int list \<Rightarrow> py_error + vec list" where
  "take_columns X js =
     (let n = int (length X)
      in if \<exists>j\<in>set js. j < - n \<or> n \<le> j then Inl IndexError
         else Inr (map (\<lambda>j. X ! nat (if j < 0 then j + n else j)) js))"

text \<open>\<^verbatim>\<open>X_g = X[:, grp_indices[grp_ptr[g]:grp_ptr[g + 1]]]\<close>.\<close>

definition group_columns :: "vec list \<Rightarrow> int list \<times> int list \<Rightarrow> nat \<Rightarrow> py_error + vec list" where
  "group_columns X p g =
     take_columns X (py_slice (snd p) (fst p ! g) (fst p ! Suc g))"

text \<open>The loop of lines 186 to 188, from the running maximum \<open>alpha_max\<close>.\<close>

fun grp_alpha_max ::
  "kernels \<Rightarrow> celer_args \<Rightarrow> int list \<times> int list \<Rightarrow> nat list \<Rightarrow> real \<Rightarrow> py_error + real" where
  "grp_alpha_max K a p [] alpha_max = Inr alpha_max"
| "grp_alpha_max K a p (g # gs) alpha_max =
     (case group_columns (a_X a) p g of
        Inl e \<Rightarrow> Inl e
      | Inr X_g \<Rightarrow>
          (case XT_dot (a_n_samples a) X_g (a_y a) of
             Inl e \<Rightarrow> Inl e
           | Inr v \<Rightarrow> grp_alpha_max K a p gs (max alpha_max (k_norm_2 K v))))"

text \<open>\<^verbatim>\<open>n_groups = len(grp_ptr) - 1\<close>, and \<^verbatim>\<open>range(n_groups)\<close>.\<close>

definition n_groups_of :: "int list \<times> int list \<Rightarrow> int" where
  "n_groups_of p = int (length (fst p)) - 1"

definition group_range :: "int list \<times> int list \<Rightarrow> nat list" where
  "group_range p = [0..<nat (n_groups_of p)]"

text \<open>Lines 176 to 189: \<open>alpha_max\<close>, for each problem.\<close>

definition alpha_max_of ::
  "kernels \<Rightarrow> celer_args \<Rightarrow> problem \<Rightarrow> (int list \<times> int list) option \<Rightarrow> py_error + real" where
  "alpha_max_of K a pb part =
     (case pb of
        LASSO \<Rightarrow>
          (case XT_dot (a_n_samples a) (a_X a) (a_y a) of
             Inl e \<Rightarrow> Inl e
           | Inr v \<Rightarrow>
               if a_positive a then Inr (Max (set v) / real (a_n_samples a))
               else Inr (norm_inf v / real (a_n_samples a)))
      | LOGREG \<Rightarrow>
          (case XT_dot (a_n_samples a) (a_X a) (a_y a) of
             Inl e \<Rightarrow> Inl e
           | Inr v \<Rightarrow> Inr (norm_inf v / 2))
      | GRPLASSO \<Rightarrow>
          (case part of
             None \<Rightarrow> Inl UnboundLocalError
           | Some p \<Rightarrow>
               (case grp_alpha_max K a p (group_range p) 0 of
                  Inl e \<Rightarrow> Inl e
                | Inr alpha_max \<Rightarrow> Inr (alpha_max / real (a_n_samples a)))))"

text \<open>
  Lines 174 to 194: the grid of penalties. \<^verbatim>\<open>np.geomspace\<close> raises ValueError for an
  end point 0 and for a negative number of points.
\<close>

definition celer_alphas ::
  "kernels \<Rightarrow> celer_args \<Rightarrow> problem \<Rightarrow> (int list \<times> int list) option \<Rightarrow> py_error + vec" where
  "celer_alphas K a pb part =
     (case a_alphas a of
        None \<Rightarrow>
          (case alpha_max_of K a pb part of
             Inl e \<Rightarrow> Inl e
           | Inr alpha_max \<Rightarrow>
               if a_eps a = 0 \<or> a_n_alphas a < 0 then Inl ValueError
               else Inr (map (\<lambda>g. alpha_max * g)
                          (k_geomspace K (a_eps a) (nat (a_n_alphas a)))))
      | Some alphas \<Rightarrow> Inr (sort_descending alphas))"

text \<open>
  The index expressions of lines 224 to 232, which run for a sparse matrix: positions
  \<open>lo\<close> to \<open>hi - 1\<close> index the Gram matrix of the \<open>m\<close> columns of the group,
  \<^verbatim>\<open>X_sparse_scaling\<close> of \<open>l\<close> entries and \<^verbatim>\<open>X_indptr\<close> of \<open>n + 1\<close> entries.
\<close>

definition sparse_gram_ok :: "nat \<Rightarrow> nat \<Rightarrow> nat \<Rightarrow> int \<Rightarrow> int \<Rightarrow> bool" where
  "sparse_gram_ok n l m lo hi =
     (lo < hi \<longrightarrow>
        hi - lo \<le> int m \<and> - int l \<le> lo \<and> hi \<le> int l \<and> - int n - 1 \<le> lo \<and> hi \<le> int n)"

text \<open>
  The loop of lines 219 to 236, collecting \<open>norms_X_grp\<close>. The operator norm of a group
  without a column raises ValueError (a maximum over no singular value).
\<close>

fun grp_norms ::
  "kernels \<Rightarrow> celer_args \<Rightarrow> nat \<Rightarrow> int list \<times> int list \<Rightarrow> nat list \<Rightarrow> py_error + vec" where
  "grp_norms K a l p [] = Inr []"
| "grp_norms K a l p (g # gs) =
     (case group_columns (a_X a) p g of
        Inl e \<Rightarrow> Inl e
      | Inr X_g \<Rightarrow>
          if a_is_sparse a \<and>
             \<not> sparse_gram_ok (length (a_X a)) l (length X_g) (fst p ! g) (fst p ! Suc g)
          then Inl IndexError
          else if X_g = [] then Inl ValueError
          else
            (case grp_norms K a l p gs of
               Inl e \<Rightarrow> Inl e
             | Inr ns \<Rightarrow> Inr (k_grp_norm K X_g # ns)))"

text \<open>
  Lines 216 to 242: the norms handed to the solver. \<^verbatim>\<open>np.zeros(n_groups)\<close> raises
  ValueError for a negative \<open>n_groups\<close>.
\<close>

definition celer_norms ::
  "kernels \<Rightarrow> celer_args \<Rightarrow> nat \<Rightarrow> problem \<Rightarrow> (int list \<times> int list) option \<Rightarrow>
     py_error + vec" where
  "celer_norms K a l pb part =
     (if pb = GRPLASSO then
        (case part of
           None \<Rightarrow> Inl UnboundLocalError
         | Some p \<Rightarrow>
             if n_groups_of p < 0 then Inl ValueError
             else grp_norms K a l p (group_range p))
      else Inr (k_norms_X_col K))"

subsection \<open>The path loop of \<^verbatim>\<open>celer_path\<close>\<close>

text \<open>
  The state of the loop: the store, the arrays \<^verbatim>\<open>dual_gaps\<close> and \<^verbatim>\<open>n_iters\<close> (which
  hold scalars and are never viewed), the variable \<^verbatim>\<open>Xw\<close>, which is bound at the first
  grid point and kept from one grid point to the next, and the effects so far: the solver
  calls and the grid points at which a ConvergenceWarning was issued. The variables
  \<^verbatim>\<open>w\<close>, \<^verbatim>\<open>theta\<close> and \<^verbatim>\<open>p0\<close> are assigned afresh at every grid point before they
  are read.
\<close>

record path_state =
  ps_heap :: "vec heap"
  ps_dual_gaps :: "real list"
  ps_n_iters :: "nat list option"
  ps_Xw :: "ref option"
  ps_events :: "(solver_call, vec, sol) event list"
  ps_warnings :: "nat list"

text \<open>What is fixed when the loop starts.\<close>

record path_cfg =
  c_pb :: problem
  c_alphas :: vec
  c_coefs :: addr
  c_thetas :: addr
  c_norms :: vec

text \<open>
  Lines 269 to 281: the first dual point, an array of the length of \<^verbatim>\<open>Xw\<close>. The
  products \<^verbatim>\<open>X.T.dot(Xw)\<close>, \<^verbatim>\<open>y * Xw\<close> and \<^verbatim>\<open>X.T @ theta\<close> raise ValueError when
  the lengths do not fit; the group Lasso calls compiled code only.
\<close>

definition first_theta :: "kernels \<Rightarrow> celer_args \<Rightarrow> problem \<Rightarrow> vec \<Rightarrow> real \<Rightarrow> py_error + vec" where
  "first_theta K a pb Xw alpha =
     (case pb of
        LASSO \<Rightarrow>
          (case XT_dot (a_n_samples a) (a_X a) Xw of
             Inl e \<Rightarrow> Inl e
           | Inr v \<Rightarrow> Inr (map (k_theta_init K pb Xw alpha) [0..<length Xw]))
      | GRPLASSO \<Rightarrow> Inr (map (k_theta_init K pb Xw alpha) [0..<length Xw])
      | LOGREG \<Rightarrow>
          (case np_broadcast (length (a_y a)) (length Xw) of
             Inl e \<Rightarrow> Inl e
           | Inr n \<Rightarrow>
               let theta = map (k_theta_init K pb Xw alpha) [0..<n]
               in case XT_dot (a_n_samples a) (a_X a) theta of
                    Inl e \<Rightarrow> Inl e
                  | Inr v \<Rightarrow> Inr theta))"

text \<open>
  Lines 252 to 281: the warm start. It yields the arrays \<^verbatim>\<open>w\<close>, \<^verbatim>\<open>Xw\<close>, \<^verbatim>\<open>theta\<close>,
  the value of \<^verbatim>\<open>p0\<close> and the store (an exception comes with the store). At the first
  grid point \<^verbatim>\<open>theta\<close> is a new
  array in each of the three problems, and \<^verbatim>\<open>Xw\<close> is a new array of \<open>n_samples\<close>
  entries or a copy of \<open>y\<close>.
\<close>

definition celer_warm_start ::
  "kernels \<Rightarrow> celer_args \<Rightarrow> path_cfg \<Rightarrow> nat \<Rightarrow> path_state \<Rightarrow>
     (py_error \<times> vec heap) + (ref \<times> ref \<times> ref \<times> int \<times> vec heap)" where
  "celer_warm_start K a c t s =
     (if t > 0 then
        (case copy (c_coefs c, t - 1) (ps_heap s) of (w, h1) \<Rightarrow>
         case copy (c_thetas c, t - 1) h1 of (theta, h2) \<Rightarrow>
         let p0 = max (count_nonzero (rd h2 w)) 1
         in case ps_Xw s of
              None \<Rightarrow> Inl (UnboundLocalError, h2)
            | Some Xw \<Rightarrow> Inr (w, Xw, theta, p0, h2))
      else
        (case (case a_coef_init a of
                 Some coef_init \<Rightarrow>
                   (case new_array coef_init (ps_heap s) of (w, h1) \<Rightarrow>
                    let p0 = max (count_nonzero (rd h1 w)) (a_p0 a)
                    in case new_array
                              (map (k_compute_Xw K (c_pb c) (rd h1 w)) [0..<a_n_samples a]) h1
                       of (Xw, h2) \<Rightarrow> (w, Xw, p0, h2))
               | None \<Rightarrow>
                   (case new_array (replicate (length (a_X a)) 0) (ps_heap s) of (w, h1) \<Rightarrow>
                    case new_array
                           (if c_pb c = LOGREG then replicate (a_n_samples a) 0 else a_y a) h1
                    of (Xw, h2) \<Rightarrow> (w, Xw, a_p0 a, h2))) of
           (w, Xw, p0, h2) \<Rightarrow>
             (case first_theta K a (c_pb c) (rd h2 Xw) (c_alphas c ! t) of
                Inl e \<Rightarrow> Inl (e, h2)
              | Inr th \<Rightarrow>
                  (case new_array th h2 of (theta, h3) \<Rightarrow> Inr (w, Xw, theta, p0, h3)))))"

text \<open>Lines 283 to 303: which solver is called, and with what.\<close>

definition celer_call ::
  "celer_args \<Rightarrow> path_cfg \<Rightarrow> nat \<Rightarrow> ref \<Rightarrow> ref \<Rightarrow> ref \<Rightarrow> int \<Rightarrow> solver_call" where
  "celer_call a c t w Xw theta p0 =
     (if c_pb c = GRPLASSO then
        \<lparr>sc_kind = CelerGrp, sc_alpha = c_alphas c ! t, sc_p0 = p0, sc_norms = c_norms c,
         sc_w = w, sc_Xw = Some Xw, sc_theta = Some theta\<rparr>
      else if c_pb c = LASSO \<or> (c_pb c = LOGREG \<and> \<not> a_use_PN a) then
        \<lparr>sc_kind = Celer, sc_alpha = c_alphas c ! t, sc_p0 = p0, sc_norms = c_norms c,
         sc_w = w, sc_Xw = Some Xw, sc_theta = Some theta\<rparr>
      else
        \<lparr>sc_kind = NewtonCeler, sc_alpha = c_alphas c ! t, sc_p0 = p0, sc_norms = [],
         sc_w = w, sc_Xw = None, sc_theta = None\<rparr>)"

text \<open>
  Lines 305 to 314: the results of the solve are stored at position \<open>t\<close> (the group Lasso
  branch stores them twice, with the same values), and a warning is issued when the last gap
  exceeds \<^verbatim>\<open>tol\<close>. \<^verbatim>\<open>sol[2][-1]\<close> raises IndexError on an empty list of gaps, before
  anything is stored, and storing an array of the wrong length raises ValueError.
\<close>

definition celer_record ::
  "celer_args \<Rightarrow> path_cfg \<Rightarrow> nat \<Rightarrow> sol \<Rightarrow> path_state \<Rightarrow> py_error + path_state" where
  "celer_record a c t sl s =
     (case sl of (sol0, sol1, gaps) \<Rightarrow>
        if gaps = [] then Inl IndexError
        else
          (case np_assign (length (a_X a)) sol0 of
             Inl e \<Rightarrow> Inl e
           | Inr col \<Rightarrow>
               (case np_assign (a_n_samples a) sol1 of
                  Inl e \<Rightarrow> Inl e
                | Inr row \<Rightarrow>
                    let h = wr (c_thetas c, t) row (wr (c_coefs c, t) col (ps_heap s));
                        dual_gaps = (ps_dual_gaps s)[t := last gaps];
                        n_iters = (case ps_n_iters s of
                                     None \<Rightarrow> None
                                   | Some n_iters \<Rightarrow> Some (n_iters[t := length gaps]));
                        warnings = (if dual_gaps ! t > a_tol a then ps_warnings s @ [t]
                                    else ps_warnings s)
                    in Inr (s\<lparr>ps_heap := h, ps_dual_gaps := dual_gaps, ps_n_iters := n_iters,
                             ps_warnings := warnings\<rparr>))))"

text \<open>
  The body of the loop, for grid point \<open>t\<close>. An exception comes with the store and
  the solver calls made when it was raised.
\<close>

definition celer_step ::
  "kernels \<Rightarrow> celer_args \<Rightarrow> path_cfg \<Rightarrow> nat \<Rightarrow> path_state \<Rightarrow>
     (py_error \<times> vec heap \<times> (solver_call, vec, sol) event list) + path_state" where
  "celer_step K a c t s =
     (case celer_warm_start K a c t s of
        Inl (e, h) \<Rightarrow> Inl (e, h, ps_events s)
      | Inr (w, Xw, theta, p0, h) \<Rightarrow>
          let call = celer_call a c t w Xw theta p0
          in case k_solve K call h of (h', sl) \<Rightarrow>
               let events = ps_events s @
                      [\<lparr>ev_call = call, ev_before = h, ev_after = h', ev_sol = sl\<rparr>]
               in case celer_record a c t sl
                         (s\<lparr>ps_heap := h', ps_Xw := Some Xw, ps_events := events\<rparr>) of
                    Inl e \<Rightarrow> Inl (e, h', events)
                  | Inr s' \<Rightarrow> Inr s')"

text \<open>
  What a call of \<^verbatim>\<open>celer_path\<close> yields: the returned tuple (\<open>out_thetas\<close> and
  \<open>out_n_iters\<close> are present when asked for; \<open>out_coefs\<close> lists the columns of
  \<^verbatim>\<open>coefs\<close>), and the effects of the call.
\<close>

record celer_run =
  out_alphas :: vec
  out_coefs :: "vec list"
  out_dual_gaps :: "real list"
  out_thetas :: "vec list option"
  out_n_iters :: "nat list option"
  run_events :: "(solver_call, vec, sol) event list"
  run_warnings :: "nat list"

text \<open>Lines 196 to 203: the arrays of the path, allocated once.\<close>

definition celer_init :: "celer_args \<Rightarrow> problem \<Rightarrow> vec \<Rightarrow> vec \<Rightarrow> path_cfg \<times> path_state" where
  "celer_init a pb alphas norms =
     (let n_alphas = length alphas
      in case alloc (replicate n_alphas (replicate (length (a_X a)) 0)) empty_heap of
           (coefs, h1) \<Rightarrow>
         case alloc (replicate n_alphas (replicate (a_n_samples a) 0)) h1 of
           (thetas, h2) \<Rightarrow>
           (\<lparr>c_pb = pb, c_alphas = alphas, c_coefs = coefs, c_thetas = thetas, c_norms = norms\<rparr>,
            \<lparr>ps_heap = h2, ps_dual_gaps = replicate n_alphas 0,
             ps_n_iters = (if a_return_n_iter a then Some (replicate n_alphas 0) else None),
             ps_Xw = None, ps_events = [], ps_warnings = []\<rparr>))"

definition celer_results :: "celer_args \<Rightarrow> path_cfg \<Rightarrow> path_state \<Rightarrow> celer_run" where
  "celer_results a c s =
     \<lparr>out_alphas = c_alphas c,
      out_coefs = cells (ps_heap s) (c_coefs c),
      out_dual_gaps = ps_dual_gaps s,
      out_thetas = (if a_return_thetas a then Some (cells (ps_heap s) (c_thetas c)) else None),
      out_n_iters = ps_n_iters s,
      run_events = ps_events s,
      run_warnings = ps_warnings s\<rparr>"

text \<open>
  Lines 138 to 194, in the order of the source: the checks of the arguments,
  \<^verbatim>\<open>check_array\<close>, the sparse scaling and the grid. Nothing is allocated yet.
\<close>

definition celer_pre ::
  "kernels \<Rightarrow> celer_args \<Rightarrow>
     py_error + (problem \<times> (int list \<times> int list) option \<times> nat \<times> vec)" where
  "celer_pre K a =
     (case celer_validate a of
        Inl e \<Rightarrow> Inl e
      | Inr (pb, part) \<Rightarrow>
          (case check_arrays a of
             Inl e \<Rightarrow> Inl e
           | Inr _ \<Rightarrow>
               (case sparse_scaling_len a of
                  Inl e \<Rightarrow> Inl e
                | Inr l \<Rightarrow>
                    (case celer_alphas K a pb part of
                       Inl e \<Rightarrow> Inl e
                     | Inr alphas \<Rightarrow> Inr (pb, part, l, alphas)))))"

text \<open>
  \<^verbatim>\<open>celer_path\<close>: it returns its results, or raises an exception, which comes with the
  store and the solver calls made when it was raised. The arrays of the path are allocated
  after the grid and before the norms.
\<close>

definition celer_path ::
  "kernels \<Rightarrow> celer_args \<Rightarrow>
     (py_error \<times> vec heap \<times> (solver_call, vec, sol) event list) + celer_run" where
  "celer_path K a =
     (case celer_pre K a of
        Inl e \<Rightarrow> Inl (e, empty_heap, [])
      | Inr (pb, part, l, alphas) \<Rightarrow>
          (case celer_norms K a l pb part of
             Inl e \<Rightarrow> Inl (e, ps_heap (snd (celer_init a pb alphas [])), [])
           | Inr norms \<Rightarrow>
               (case celer_init a pb alphas norms of (c, s0) \<Rightarrow>
                  (case run_path (celer_step K a c) [0..<length alphas] s0 of
                     Inl ee \<Rightarrow> Inl ee
                   | Inr s \<Rightarrow> Inr (celer_results a c s)))))"

subsection \<open>Assumptions on arguments and solvers\<close>


text \<open>
  The arrays have the documented shapes: a matrix with a sample and a feature, a \<open>y\<close>
  with one entry for each sample, \<^verbatim>\<open>X_offset\<close> and \<^verbatim>\<open>X_scale\<close> absent or with one
  entry for each feature; and when the grid is computed, \<open>eps\<close> is not 0 and
  \<open>n_alphas\<close> is not negative.
\<close>

definition inputs_shaped :: "celer_args \<Rightarrow> bool" where
  "inputs_shaped a =
     (0 < a_n_samples a \<and> a_X a \<noteq> [] \<and> int (length (a_X a)) < 2 ^ 31 \<and>
      length (a_y a) = a_n_samples a \<and>
      (a_alphas a = None \<longrightarrow> a_eps a \<noteq> 0 \<and> 0 \<le> a_n_alphas a) \<and>
      (case a_X_offset a of
         None \<Rightarrow> True
       | Some X_offset \<Rightarrow>
           (case a_X_scale a of
              None \<Rightarrow> False
            | Some X_scale \<Rightarrow>
                length X_offset = length (a_X a) \<and> length X_scale = length (a_X a))))"



definition ev_gaps :: "('c, 'a, 'x \<times> 'y \<times> 'z) event \<Rightarrow> 'z" where
  "ev_gaps e = snd (snd (ev_sol e))"

text \<open>
  What is assumed of the compiled solvers where a statement needs it: that the list of gaps
  they return is not empty, that the arrays they return have \<open>n_features\<close> and
  \<open>n_samples\<close> entries, and that they update in place no other array than the ones
  they are given (\<^verbatim>\<open>w\<close>, \<^verbatim>\<open>Xw\<close>, \<^verbatim>\<open>theta\<close>), leaving every other line of the
  store, and the size of every buffer, as it was.
\<close>

definition gaps_nonempty :: "kernels \<Rightarrow> bool" where
  "gaps_nonempty K = (\<forall>call h. snd (snd (snd (k_solve K call h))) \<noteq> [])"

definition solver_shapes :: "kernels \<Rightarrow> celer_args \<Rightarrow> bool" where
  "solver_shapes K a =
     (\<forall>call h. length (fst (snd (k_solve K call h))) = length (a_X a) \<and>
                length (fst (snd (snd (k_solve K call h)))) = a_n_samples a)"




text \<open>
  The first grid point raises no exception before its solver call: the lengths fit in
  the first dual point.
\<close>

definition first_theta_ok :: "celer_args \<Rightarrow> problem \<Rightarrow> bool" where
  "first_theta_ok a pb =
     (case pb of
        LASSO \<Rightarrow> a_coef_init a \<noteq> None \<or> length (a_y a) = a_n_samples a
      | GRPLASSO \<Rightarrow> True
      | LOGREG \<Rightarrow> length (a_y a) = a_n_samples a \<or> length (a_y a) = 1)"

text \<open>
  The set-up of \<^verbatim>\<open>celer_path\<close> before the loop succeeded, with this problem, grid
  and norms, and the lengths fit in the first dual point.
\<close>

definition celer_setup ::
  "kernels \<Rightarrow> celer_args \<Rightarrow> problem \<Rightarrow> vec \<Rightarrow> vec \<Rightarrow> bool" where
  "celer_setup K a pb alphas norms =
     ((\<exists>part l. celer_pre K a = Inr (pb, part, l, alphas) \<and>
                celer_norms K a l pb part = Inr norms) \<and>
      first_theta_ok a pb)"

text \<open>The first working-set size and the first \<^verbatim>\<open>w\<close>, at the first grid point.\<close>

definition first_p0 :: "celer_args \<Rightarrow> int" where
  "first_p0 a =
     (case a_coef_init a of
        None \<Rightarrow> a_p0 a
      | Some coef_init \<Rightarrow> max (count_nonzero coef_init) (a_p0 a))"

definition first_w :: "celer_args \<Rightarrow> vec" where
  "first_w a =
     (case a_coef_init a of
        None \<Rightarrow> replicate (length (a_X a)) 0
      | Some coef_init \<Rightarrow> coef_init)"

subsection \<open>Invariants of the loop of \<^verbatim>\<open>celer_path\<close>\<close>

text \<open>
  What holds of the \<open>i\<close>-th recorded solver call: it is a call of the solver parameter,
  at the \<open>i\<close>-th penalty, its gaps are not empty, and its \<^verbatim>\<open>p0\<close> comes from the
  contents of \<^verbatim>\<open>w\<close> at the time of the call.
\<close>

definition event_ok ::
  "kernels \<Rightarrow> celer_args \<Rightarrow> path_cfg \<Rightarrow> nat \<Rightarrow> (solver_call, vec, sol) event \<Rightarrow> bool" where
  "event_ok K a c i e =
     (k_solve K (ev_call e) (ev_before e) = (ev_after e, ev_sol e) \<and>
      sc_alpha (ev_call e) = c_alphas c ! i \<and>
      ev_gaps e \<noteq> [] \<and>
      sc_p0 (ev_call e) =
        (if i = 0 then first_p0 a
         else max (count_nonzero (rd (ev_before e) (sc_w (ev_call e)))) 1) \<and>
      (i = 0 \<longrightarrow> rd (ev_before e) (sc_w (ev_call e)) = first_w a))"

definition path_basic ::
  "kernels \<Rightarrow> celer_args \<Rightarrow> path_cfg \<Rightarrow> nat \<Rightarrow> path_state \<Rightarrow> bool" where
  "path_basic K a c t s =
     (length (ps_events s) = t \<and>
      length (ps_dual_gaps s) = length (c_alphas c) \<and>
      (0 < t \<longrightarrow> ps_Xw s \<noteq> None) \<and>
      (\<forall>i<t. event_ok K a c i (ps_events s ! i) \<and>
              ps_dual_gaps s ! i = last (ev_gaps (ps_events s ! i))) \<and>
      ps_warnings s = filter (\<lambda>i. ps_dual_gaps s ! i > a_tol a) [0..<t] \<and>
      (case ps_n_iters s of
         None \<Rightarrow> \<not> a_return_n_iter a
       | Some ns \<Rightarrow> a_return_n_iter a \<and> length ns = length (c_alphas c) \<and>
           (\<forall>i<t. ns ! i = length (ev_gaps (ps_events s ! i)))))"




subsection \<open>Example inputs\<close>


text \<open>
  A Lasso problem with two features and three samples, on the caller's grid \<open>[1, 2]\<close>.
\<close>

definition demo_args :: celer_args where
  "demo_args =
     \<lparr>a_X = [[1, 0, 0], [0, 1, 0]], a_n_samples = 3, a_is_sparse = False, a_y = [1, 2, 3],
      a_pb = ''Lasso'', a_eps = 1 / 1000, a_n_alphas = 100, a_alphas = Some [1, 2],
      a_coef_init = None, a_p0 = 10, a_tol = 3 / 10, a_groups = None, a_return_thetas = True,
      a_use_PN = False, a_X_offset = None, a_X_scale = None, a_return_n_iter = True,
      a_positive = False\<rparr>"

section \<open>Properties of the group converter\<close>

lemma astype_int32_id: "- (2 ^ 31) \<le> x \<Longrightarrow> x < 2 ^ 31 \<Longrightarrow> astype_int32 x = x"
  unfolding astype_int32_def by (simp add: signed_take_bit_int_eq_self sint_sbintrunc')

lemma map_astype_int32_id:
  "(\<And>x. x \<in> set xs \<Longrightarrow> - (2 ^ 31) \<le> x \<and> x < 2 ^ 31) \<Longrightarrow> map astype_int32 xs = xs"
  by (rule map_idI) (simp add: astype_int32_id)

lemma arange_in_range:
  assumes "n < 2 ^ 31" and "x \<in> set (arange n)"
  shows "- (2 ^ 31) \<le> x \<and> x < 2 ^ 31"
  using assms by (auto simp: arange_def)

lemma set_cumsum_from_bounds:
  "\<forall>s\<in>set xs. 0 \<le> s \<Longrightarrow> x \<in> set (cumsum_from a xs) \<Longrightarrow> a \<le> x \<and> x \<le> a + sum_list xs"
proof (induction xs arbitrary: a)
  case Nil
  then show ?case by simp
next
  case (Cons y ys)
  then show ?case
  proof (cases "x = a + y")
    case True
    with Cons.prems show ?thesis by (simp add: sum_list_nonneg)
  next
    case False
    with Cons.prems have "x \<in> set (cumsum_from (a + y) ys)" by simp
    with Cons.IH [of "a + y"] Cons.prems have "a + y \<le> x \<and> x \<le> a + y + sum_list ys" by simp
    with Cons.prems show ?thesis by simp
  qed
qed

lemma sorted_cumsum_from:
  "\<forall>s\<in>set xs. 0 \<le> s \<Longrightarrow> sorted (a # cumsum_from a xs)"
proof (induction xs arbitrary: a)
  case Nil
  then show ?case by simp
next
  case (Cons y ys)
  have "\<forall>x\<in>set (cumsum_from (a + y) ys). a \<le> x"
    using set_cumsum_from_bounds [of ys _ "a + y"] Cons.prems by fastforce
  with Cons show ?case by simp
qed

lemma strict_sorted_cumsum_from:
  "\<forall>s\<in>set xs. 0 < s \<Longrightarrow> sorted_wrt (<) (a # cumsum_from a xs)"
proof (induction xs arbitrary: a)
  case Nil
  then show ?case by simp
next
  case (Cons y ys)
  have nonneg: "\<forall>s\<in>set ys. 0 \<le> s" using Cons.prems by fastforce
  have "\<forall>x\<in>set (cumsum_from (a + y) ys). a + y \<le> x"
    using set_cumsum_from_bounds [OF nonneg, of _ "a + y"] by blast
  moreover have "0 < y" using Cons.prems by simp
  ultimately have "\<forall>x\<in>set (cumsum_from (a + y) ys). a < x" by fastforce
  moreover have "sorted_wrt (<) ((a + y) # cumsum_from (a + y) ys)"
    using Cons.IH [of "a + y"] Cons.prems by simp
  ultimately show ?case using \<open>0 < y\<close> by simp
qed

lemma last_cumsum_from: "last (a # cumsum_from a xs) = a + sum_list xs"
  by (induction xs arbitrary: a) (simp_all add: add.assoc)

lemma length_cumsum_from: "length (cumsum_from a xs) = length xs"
  by (induction xs arbitrary: a) simp_all

lemma cumsum_Cons0: "cumsum (0 # xs) = 0 # cumsum xs"
  by (simp add: cumsum_def)

lemma sum_list_lengths: "sum_list (map (\<lambda>ls. int (length ls)) gl) = int (length (concat gl))"
  by (induction gl) simp_all

lemma grp_converter_int:
  assumes "0 < k" "n < 2 ^ 31" "n mod k = 0" "k < 2 ^ 63"
  shows "grp_converter (GInt k) n = Inr (map (\<lambda>g. k * g) [0..n div k], [0..n - 1])"
proof -
  have "\<And>x. x \<in> set (map (\<lambda>g. k * g) (arange (n div k + 1))) \<Longrightarrow> - (2 ^ 31) \<le> x \<and> x < 2 ^ 31"
  proof -
    fix x assume "x \<in> set (map (\<lambda>g. k * g) (arange (n div k + 1)))"
    then obtain g where gm: "g \<in> set (arange (n div k + 1))" and gx: "x = k * g"
      unfolding set_map by (rule imageE)
    from gm have "0 \<le> g" "g \<le> n div k" by (simp_all add: arange_def)
    with gx have g: "x = k * g" "0 \<le> g" "g \<le> n div k" by simp_all
    have "k * g \<le> k * (n div k)" using g assms(1) by (simp add: mult_left_mono)
    also have "\<dots> = n" using assms(3) by (metis mult_div_mod_eq add.right_neutral)
    finally have "x \<le> n" using g by simp
    moreover have "0 \<le> x" using g assms(1) by simp
    ultimately show "- (2 ^ 31) \<le> x \<and> x < 2 ^ 31" using assms(2) by simp
  qed
  then have "map astype_int32 (map (\<lambda>g. k * g) (arange (n div k + 1))) = map (\<lambda>g. k * g) (arange (n div k + 1))"
    by (rule map_astype_int32_id)
  moreover have "map astype_int32 (arange n) = arange n"
    using arange_in_range [OF assms(2)] by (rule map_astype_int32_id)
  ultimately show ?thesis using assms by (simp add: grp_converter_def Let_def arange_def)
qed

lemma grp_converter_sizes:
  assumes "gs \<noteq> []" "n < 2 ^ 31" "\<forall>s\<in>set (cumsum gs). - (2 ^ 31) \<le> s \<and> s < 2 ^ 31"
  shows "grp_converter (GSizes gs) n = Inr (0 # cumsum gs, [0..n - 1])"
proof -
  obtain s ss where gs: "gs = s # ss" using assms(1) by (cases gs) auto
  have "map astype_int32 (cumsum gs) = cumsum gs"
    using assms(3) by (intro map_astype_int32_id) blast
  moreover have "map astype_int32 (arange n) = arange n"
    using arange_in_range [OF assms(2)] by (rule map_astype_int32_id)
  moreover have "astype_int32 0 = 0" by (simp add: astype_int32_id)
  ultimately show ?thesis
    unfolding gs by (simp add: grp_converter_def Let_def cumsum_Cons0 arange_def)
qed

lemma grp_converter_lists:
  assumes "gl \<noteq> []" "length (concat gl) < 2 ^ 31" "\<forall>i\<in>set (concat gl). - (2 ^ 31) \<le> i \<and> i < 2 ^ 31"
  shows "grp_converter (GLists gl) n = Inr (0 # cumsum (map (\<lambda>ls. int (length ls)) gl), concat gl)"
proof -
  obtain l ls where gl: "gl = l # ls" using assms(1) by (cases gl) auto
  let ?sz = "map (\<lambda>ls. int (length ls)) gl"
  have nonneg: "\<forall>s\<in>set ?sz. 0 \<le> s" by simp
  have "\<And>x. x \<in> set (cumsum ?sz) \<Longrightarrow> - (2 ^ 31) \<le> x \<and> x < 2 ^ 31"
  proof -
    fix x assume "x \<in> set (cumsum ?sz)"
    then have "0 \<le> x \<and> x \<le> 0 + sum_list ?sz"
      unfolding cumsum_def using set_cumsum_from_bounds [OF nonneg] by blast
    then show "- (2 ^ 31) \<le> x \<and> x < 2 ^ 31"
      using assms(2) by (simp add: sum_list_lengths)
  qed
  then have "map astype_int32 (cumsum ?sz) = cumsum ?sz" by (rule map_astype_int32_id)
  moreover have "map astype_int32 (concat gl) = concat gl"
    using assms(3) by (intro map_astype_int32_id) blast
  moreover have "astype_int32 0 = 0" by (simp add: astype_int32_id)
  ultimately show ?thesis
    unfolding gl by (simp add: grp_converter_def Let_def cumsum_Cons0)
qed

lemma interval_exists:
  "ptr \<noteq> [] \<Longrightarrow> hd ptr \<le> (j::int) \<Longrightarrow> j < last ptr \<Longrightarrow>
     \<exists>g. Suc g < length ptr \<and> ptr ! g \<le> j \<and> j < ptr ! Suc g"
proof (induction ptr)
  case Nil
  then show ?case by simp
next
  case step: (Cons a as)
  show ?case
  proof (cases as)
    case Nil
    with step.prems have "a \<le> j" "j < a" by simp_all
    then show ?thesis by simp
  next
    case (Cons b bs)
    show ?thesis
    proof (cases "j < b")
      case True
      with step.prems Cons have "Suc 0 < length (a # as) \<and> (a # as) ! 0 \<le> j \<and> j < (a # as) ! Suc 0"
        by simp
      then show ?thesis by blast
    next
      case False
      with step.prems Cons have "as \<noteq> []" "hd as \<le> j" "j < last as" by simp_all
      from step.IH [OF this] obtain g where "Suc g < length as \<and> as ! g \<le> j \<and> j < as ! Suc g"
        by blast
      then have "Suc (Suc g) < length (a # as) \<and> (a # as) ! Suc g \<le> j \<and> j < (a # as) ! Suc (Suc g)"
        by simp
      then show ?thesis by blast
    qed
  qed
qed

lemma interval_unique:
  assumes "sorted ptr" "Suc g < length ptr" "Suc g' < length ptr"
    and "ptr ! g \<le> (j::int)" "j < ptr ! Suc g" "ptr ! g' \<le> j" "j < ptr ! Suc g'"
  shows "g = g'"
proof (rule ccontr)
  assume "g \<noteq> g'"
  then consider "Suc g \<le> g'" | "Suc g' \<le> g" by linarith
  then show False
  proof cases
    case 1
    then have "ptr ! Suc g \<le> ptr ! g'" using assms(1,3) by (simp add: sorted_nth_mono)
    with assms(5,6) show False by simp
  next
    case 2
    then have "ptr ! Suc g' \<le> ptr ! g" using assms(1,2) by (simp add: sorted_nth_mono)
    with assms(4,7) show False by simp
  qed
qed

lemma in_grp_members_iff:
  assumes "0 \<le> ptr ! g" "ptr ! g \<le> ptr ! Suc g"
  shows "f \<in> set (grp_members ptr idx g) \<longleftrightarrow>
         (\<exists>j. nat (ptr ! g) \<le> j \<and> j < nat (ptr ! Suc g) \<and> j < length idx \<and> idx ! j = f)"
proof
  assume "f \<in> set (grp_members ptr idx g)"
  then obtain i where i: "i < length (grp_members ptr idx g)" "grp_members ptr idx g ! i = f"
    by (auto simp: in_set_conv_nth)
  then have "i < nat (ptr ! Suc g - ptr ! g)" "nat (ptr ! g) + i < length idx"
    by (auto simp: grp_members_def)
  moreover from i have "idx ! (nat (ptr ! g) + i) = f"
    by (auto simp: grp_members_def)
  ultimately show "\<exists>j. nat (ptr ! g) \<le> j \<and> j < nat (ptr ! Suc g) \<and> j < length idx \<and> idx ! j = f"
    using assms by (intro exI [of _ "nat (ptr ! g) + i"]) auto
next
  assume "\<exists>j. nat (ptr ! g) \<le> j \<and> j < nat (ptr ! Suc g) \<and> j < length idx \<and> idx ! j = f"
  then obtain j where j: "nat (ptr ! g) \<le> j" "j < nat (ptr ! Suc g)" "j < length idx" "idx ! j = f"
    by blast
  let ?i = "j - nat (ptr ! g)"
  have "?i < length (grp_members ptr idx g)"
    using j assms by (auto simp: grp_members_def)
  moreover have "grp_members ptr idx g ! ?i = f"
    using j assms by (simp add: grp_members_def)
  ultimately show "f \<in> set (grp_members ptr idx g)"
    by (metis nth_mem)
qed

lemma partition_inv_length:
  assumes "partition_inv n (ptr, idx)"
  shows "int (length idx) = n \<or> (n < 0 \<and> idx = [])"
proof -
  from assms have d: "distinct idx" and s: "set idx = {0..<n}" by (simp_all add: partition_inv_def)
  have "length idx = card (set idx)" using d by (simp add: distinct_card)
  also have "\<dots> = card {0..<n}" using s by simp
  finally show ?thesis by auto
qed

lemma partition_inv_one_group:
  assumes inv: "partition_inv n (ptr, idx)" and f: "0 \<le> f" "f < n"
  shows "\<exists>!g. Suc g < length ptr \<and> f \<in> set (grp_members ptr idx g)"
proof -
  from inv have "sorted_wrt (<) ptr" by (simp add: partition_inv_def)
  then have srt: "sorted ptr" by (rule strict_sorted_imp_sorted)
  from inv have ne: "ptr \<noteq> []" and h: "hd ptr = 0" and l: "last ptr = n"
    and d: "distinct idx" and s: "set idx = {0..<n}"
    by (simp_all add: partition_inv_def)
  have len: "int (length idx) = n" using partition_inv_length [OF inv] f by auto
  from f s have "f \<in> set idx" by simp
  then obtain j where j: "j < length idx" "idx ! j = f" by (auto simp: in_set_conv_nth)
  have nonneg: "\<And>g. g < length ptr \<Longrightarrow> 0 \<le> ptr ! g"
  proof -
    fix g assume "g < length ptr"
    then have "ptr ! 0 \<le> ptr ! g" using srt by (simp add: sorted_nth_mono)
    then show "0 \<le> ptr ! g" using h ne by (simp add: hd_conv_nth)
  qed
  have mono: "\<And>g. Suc g < length ptr \<Longrightarrow> ptr ! g \<le> ptr ! Suc g"
    using srt by (simp add: sorted_nth_mono)
  have mem: "\<And>g. Suc g < length ptr \<Longrightarrow>
      f \<in> set (grp_members ptr idx g) \<longleftrightarrow> ptr ! g \<le> int j \<and> int j < ptr ! Suc g"
  proof -
    fix g assume g: "Suc g < length ptr"
    have "f \<in> set (grp_members ptr idx g) \<longleftrightarrow>
          (\<exists>j'. nat (ptr ! g) \<le> j' \<and> j' < nat (ptr ! Suc g) \<and> j' < length idx \<and> idx ! j' = f)"
      using g nonneg [of g] mono [OF g] by (intro in_grp_members_iff) simp_all
    also have "\<dots> \<longleftrightarrow> nat (ptr ! g) \<le> j \<and> j < nat (ptr ! Suc g)"
      using j d by (metis nth_eq_iff_index_eq)
    also have "\<dots> \<longleftrightarrow> ptr ! g \<le> int j \<and> int j < ptr ! Suc g"
      using g nonneg [of g] nonneg [of "Suc g"] by auto
    finally show "f \<in> set (grp_members ptr idx g) \<longleftrightarrow> ptr ! g \<le> int j \<and> int j < ptr ! Suc g" .
  qed
  have "hd ptr \<le> int j" "int j < last ptr" using h l len j by simp_all
  from interval_exists [OF ne this] obtain g
    where g: "Suc g < length ptr" "ptr ! g \<le> int j" "int j < ptr ! Suc g" by blast
  show ?thesis
  proof (rule ex1I [of _ g])
    show "Suc g < length ptr \<and> f \<in> set (grp_members ptr idx g)" using g mem by simp
  next
    fix g' assume "Suc g' < length ptr \<and> f \<in> set (grp_members ptr idx g')"
    then have "Suc g' < length ptr" "ptr ! g' \<le> int j" "int j < ptr ! Suc g'" using mem by blast+
    then show "g' = g" using interval_unique [OF srt _ g(1) _ _ g(2,3)] by blast
  qed
qed

lemma partition_inv_one_group_each: "partition_inv n p \<Longrightarrow> one_group_each n p"
  unfolding one_group_each_def using partition_inv_one_group [of n "fst p" "snd p"] by simp

lemma strict_sorted_multiples:
  assumes "0 < (k::int)"
  shows "sorted_wrt (<) (map (\<lambda>g. k * g) [0..m])"
proof -
  have "sorted_wrt (<) [0..m]" by (simp add: sorted_wrt_upto)
  then have "sorted_wrt (\<lambda>x y. k * x < k * y) [0..m]"
    using assms by (rule_tac sorted_wrt_mono_rel [where P = "(<)"]) simp_all
  then show ?thesis by (simp add: sorted_wrt_map)
qed

lemma partition_inv_int:
  assumes "0 < k" "0 \<le> n" "n mod k = 0"
  shows "partition_inv n (map (\<lambda>g. k * g) [0..n div k], [0..n - 1])"
proof -
  have m: "0 \<le> n div k" using assms by (simp add: pos_imp_zdiv_nonneg_iff)
  then have ne: "[0..n div k] \<noteq> []" by (simp add: upto.simps)
  have h: "hd [0..n div k] = 0" using m by (simp add: upto.simps)
  have l: "last [0..n div k] = n div k" using m by (simp add: upto_rec2)
  have "k * (n div k) = n" using assms(3) by (metis mult_div_mod_eq add.right_neutral)
  with ne h l show ?thesis
    using strict_sorted_multiples [OF assms(1), of "n div k"]
    by (auto simp: partition_inv_def hd_map last_map)
qed

lemma partition_inv_sizes:
  assumes "\<forall>s\<in>set gs. 0 < s" "sum_list gs = n"
  shows "partition_inv n (0 # cumsum gs, [0..n - 1])"
proof -
  have "sorted_wrt (<) (0 # cumsum gs)"
    using strict_sorted_cumsum_from [OF assms(1), of 0] by (simp add: cumsum_def)
  moreover have "last (0 # cumsum gs) = n"
    using last_cumsum_from [of 0 gs] assms(2) by (simp add: cumsum_def)
  ultimately show ?thesis by (auto simp: partition_inv_def)
qed

lemma partition_inv_lists:
  assumes "distinct (concat gl)" "set (concat gl) = {0..<n}" "0 \<le> n" "\<forall>ls\<in>set gl. ls \<noteq> []"
  shows "partition_inv n (0 # cumsum (map (\<lambda>ls. int (length ls)) gl), concat gl)"
proof -
  have "length (concat gl) = card {0..<n}"
    using assms(1,2) by (metis distinct_card)
  then have len: "int (length (concat gl)) = n" using assms(3) by simp
  have "\<forall>s\<in>set (map (\<lambda>ls. int (length ls)) gl). 0 < s" using assms(4) by simp
  from strict_sorted_cumsum_from [OF this, of 0]
  have "sorted_wrt (<) (0 # cumsum (map (\<lambda>ls. int (length ls)) gl))" by (simp add: cumsum_def)
  moreover have "last (0 # cumsum (map (\<lambda>ls. int (length ls)) gl)) = n"
    using last_cumsum_from [of 0 "map (\<lambda>ls. int (length ls)) gl"] len
    by (simp add: cumsum_def sum_list_lengths)
  ultimately show ?thesis using assms(1,2) by (simp add: partition_inv_def)
qed

text \<open>
  Claim C2. For a group size \<open>k\<close> (at least 1, within 64 bits) dividing
  \<open>n_features\<close> the converter returns the boundaries \<open>[0, k, 2k, ..., n_features]\<close> and
  the identity index array; for a list of sizes, the cumulative sums prefixed with 0 and the
  identity index array; for a list of index lists, the cumulative lengths prefixed with 0
  and the concatenation of the lists, each in its own order. The lists are not empty and the
  values fit the 32-bit result type. The function is a HOL function of its two arguments,
  hence pure.
\<close>

theorem grp_converter_spec:
  "(0 < k \<and> k < 2 ^ 63 \<and> n < 2 ^ 31 \<and> n mod k = 0 \<longrightarrow>
      grp_converter (GInt k) n = Inr (map (\<lambda>g. k * g) [0..n div k], [0..n - 1])) \<and>
   (gs \<noteq> [] \<and> n < 2 ^ 31 \<and> (\<forall>s\<in>set (cumsum gs). - (2 ^ 31) \<le> s \<and> s < 2 ^ 31) \<longrightarrow>
      grp_converter (GSizes gs) n = Inr (0 # cumsum gs, [0..n - 1])) \<and>
   (gl \<noteq> [] \<and> length (concat gl) < 2 ^ 31 \<and>
      (\<forall>i\<in>set (concat gl). - (2 ^ 31) \<le> i \<and> i < 2 ^ 31) \<longrightarrow>
      grp_converter (GLists gl) n =
        Inr (0 # cumsum (map (\<lambda>ls. int (length ls)) gl), concat gl))"
proof (intro conjI impI)
  assume "0 < k \<and> k < 2 ^ 63 \<and> n < 2 ^ 31 \<and> n mod k = 0"
  then show "grp_converter (GInt k) n = Inr (map (\<lambda>g. k * g) [0..n div k], [0..n - 1])"
    by (simp add: grp_converter_int)
next
  assume "gs \<noteq> [] \<and> n < 2 ^ 31 \<and> (\<forall>s\<in>set (cumsum gs). - (2 ^ 31) \<le> s \<and> s < 2 ^ 31)"
  then show "grp_converter (GSizes gs) n = Inr (0 # cumsum gs, [0..n - 1])"
    by (intro grp_converter_sizes) simp_all
next
  assume "gl \<noteq> [] \<and> length (concat gl) < 2 ^ 31 \<and>
      (\<forall>i\<in>set (concat gl). - (2 ^ 31) \<le> i \<and> i < 2 ^ 31)"
  then show "grp_converter (GLists gl) n =
        Inr (0 # cumsum (map (\<lambda>ls. int (length ls)) gl), concat gl)"
    by (intro grp_converter_lists) simp_all
qed

text \<open>The three calls of the repository's test \<^verbatim>\<open>test_convert_groups\<close>.\<close>

theorem grp_converter_spec_witness:
  "grp_converter (GInt 3) 6 = Inr ([0, 3, 6], [0, 1, 2, 3, 4, 5]) \<and>
   grp_converter (GSizes [1, 3, 2]) 6 = Inr ([0, 1, 4, 6], [0, 1, 2, 3, 4, 5]) \<and>
   grp_converter (GLists [[0, 2, 5], [1, 3], [4]]) 6 = Inr ([0, 3, 5, 6], [0, 2, 5, 1, 3, 4])"
  using grp_converter_spec [of 3 6 "[1, 3, 2]" "[[0, 2, 5], [1, 3], [4]]"]
  by (simp add: cumsum_def upto.simps)

text \<open>
  Claim C9, as amended. The converter checks nothing about list arguments, so the Partition
  invariant holds for the arguments that describe a partition: a group size (at least 1,
  within 64 bits) dividing \<open>n_features\<close>; a non-empty list of positive sizes that sum to
  \<open>n_features\<close>; a non-empty list of non-empty index lists whose concatenation is a
  permutation of \<open>[0, n_features)\<close>. Then the boundaries are strictly increasing from 0
  to \<open>n_features\<close> and every feature lies in exactly one group.
\<close>

theorem grp_converter_partition_inv:
  "(0 < k \<and> k < 2 ^ 63 \<and> 0 \<le> n \<and> n < 2 ^ 31 \<and> n mod k = 0 \<longrightarrow>
      (\<exists>p. grp_converter (GInt k) n = Inr p \<and> partition_inv n p \<and> one_group_each n p)) \<and>
   (gs \<noteq> [] \<and> n < 2 ^ 31 \<and> (\<forall>s\<in>set gs. 0 < s) \<and> sum_list gs = n \<longrightarrow>
      (\<exists>p. grp_converter (GSizes gs) n = Inr p \<and> partition_inv n p \<and> one_group_each n p)) \<and>
   (gl \<noteq> [] \<and> (\<forall>ls\<in>set gl. ls \<noteq> []) \<and> 0 \<le> n \<and> n < 2 ^ 31 \<and>
      distinct (concat gl) \<and> set (concat gl) = {0..<n} \<longrightarrow>
      (\<exists>p. grp_converter (GLists gl) n = Inr p \<and> partition_inv n p \<and> one_group_each n p))"
proof (intro conjI impI)
  assume a: "0 < k \<and> k < 2 ^ 63 \<and> 0 \<le> n \<and> n < 2 ^ 31 \<and> n mod k = 0"
  then have "grp_converter (GInt k) n = Inr (map (\<lambda>g. k * g) [0..n div k], [0..n - 1])"
    by (simp add: grp_converter_int)
  moreover have "partition_inv n (map (\<lambda>g. k * g) [0..n div k], [0..n - 1])"
    using a by (simp add: partition_inv_int)
  ultimately show "\<exists>p. grp_converter (GInt k) n = Inr p \<and> partition_inv n p \<and> one_group_each n p"
    using partition_inv_one_group_each by blast
next
  assume a: "gs \<noteq> [] \<and> n < 2 ^ 31 \<and> (\<forall>s\<in>set gs. 0 < s) \<and> sum_list gs = n"
  then have nonneg: "\<forall>s\<in>set gs. 0 \<le> s" by fastforce
  have "\<forall>s\<in>set (cumsum gs). - (2 ^ 31) \<le> s \<and> s < 2 ^ 31"
    unfolding cumsum_def using set_cumsum_from_bounds [OF nonneg, of _ 0] a by fastforce
  with a have "grp_converter (GSizes gs) n = Inr (0 # cumsum gs, [0..n - 1])"
    by (simp add: grp_converter_sizes)
  moreover have "partition_inv n (0 # cumsum gs, [0..n - 1])"
    using a by (simp add: partition_inv_sizes)
  ultimately show "\<exists>p. grp_converter (GSizes gs) n = Inr p \<and> partition_inv n p \<and> one_group_each n p"
    using partition_inv_one_group_each by blast
next
  assume a: "gl \<noteq> [] \<and> (\<forall>ls\<in>set gl. ls \<noteq> []) \<and> 0 \<le> n \<and> n < 2 ^ 31 \<and>
      distinct (concat gl) \<and> set (concat gl) = {0..<n}"
  then have "length (concat gl) = card {0..<n}" by (metis distinct_card)
  with a have "length (concat gl) < 2 ^ 31" by (simp add: nat_less_iff)
  moreover have "\<forall>i\<in>set (concat gl). - (2 ^ 31) \<le> i \<and> i < 2 ^ 31" using a by simp
  ultimately have "grp_converter (GLists gl) n =
      Inr (0 # cumsum (map (\<lambda>ls. int (length ls)) gl), concat gl)"
    using a by (simp add: grp_converter_lists)
  moreover have "partition_inv n (0 # cumsum (map (\<lambda>ls. int (length ls)) gl), concat gl)"
    using a by (simp add: partition_inv_lists)
  ultimately show "\<exists>p. grp_converter (GLists gl) n = Inr p \<and> partition_inv n p \<and> one_group_each n p"
    using partition_inv_one_group_each by blast
qed

text \<open>The invariant on the three test inputs.\<close>

theorem grp_converter_partition_inv_witness:
  "(\<exists>p. grp_converter (GInt 3) 6 = Inr p \<and> partition_inv 6 p \<and> one_group_each 6 p) \<and>
   (\<exists>p. grp_converter (GSizes [1, 3, 2]) 6 = Inr p \<and> partition_inv 6 p \<and> one_group_each 6 p) \<and>
   (\<exists>p. grp_converter (GLists [[0, 2, 5], [1, 3], [4]]) 6 = Inr p \<and> partition_inv 6 p \<and> one_group_each 6 p)"
proof -
  have "set (concat [[0, 2, 5], [1, 3], [4::int]]) = {0..<6}" by auto
  then show ?thesis
    using grp_converter_partition_inv [of 3 6 "[1, 3, 2]" "[[0, 2, 5], [1, 3], [4]]"] by simp
qed

text \<open>
  Claim C9 as stated covers every argument that the converter accepts. The sizes
  \<open>[1, 2]\<close> are accepted for six features, and the boundaries end at 3.
\<close>

theorem grp_converter_unchecked_sizes_counterexample:
  "grp_converter (GSizes [1, 2]) 6 = Inr ([0, 1, 3], [0, 1, 2, 3, 4, 5]) \<and>
   \<not> partition_inv 6 ([0, 1, 3], [0, 1, 2, 3, 4, 5])"
  by (simp add: grp_converter_def arange_def cumsum_def astype_int32_def partition_inv_def
      upto.simps)
section \<open>The loop of the path functions\<close>

lemma run_path_append:
  "run_path body (xs @ ys) s =
     (case run_path body xs s of Inl e \<Rightarrow> Inl e | Inr s' \<Rightarrow> run_path body ys s')"
  by (induction xs arbitrary: s) (auto split: sum.splits)

lemma run_path_invariant:
  assumes "run_path body [0..<n] s0 = Inr s"
    and "P 0 s0"
    and "\<And>t s s'. t < n \<Longrightarrow> P t s \<Longrightarrow> body t s = Inr s' \<Longrightarrow> P (Suc t) s'"
  shows "P n s"
  using assms
proof (induction n arbitrary: s)
  case 0
  then show ?case by simp
next
  case (Suc n)
  from Suc.prems(1) obtain s1 where s1: "run_path body [0..<n] s0 = Inr s1" "body n s1 = Inr s"
    by (auto simp: run_path_append split: sum.splits)
  have "P n s1" using s1(1) Suc.prems(2,3) by (intro Suc.IH) auto
  then show ?case using Suc.prems(3) [of n s1 s] s1(2) by simp
qed

lemma run_path_total:
  assumes "P 0 s0"
    and "\<And>t s. t < n \<Longrightarrow> P t s \<Longrightarrow> \<exists>s'. body t s = Inr s' \<and> P (Suc t) s'"
  shows "\<exists>s. run_path body [0..<n] s0 = Inr s \<and> P n s"
  using assms
proof (induction n)
  case 0
  then show ?case by simp
next
  case (Suc n)
  have "\<exists>s. run_path body [0..<n] s0 = Inr s \<and> P n s"
    using Suc.prems by (intro Suc.IH) auto
  then obtain s1 where s1: "run_path body [0..<n] s0 = Inr s1" "P n s1" by blast
  from Suc.prems(2) [of n s1] s1(2) obtain s' where "body n s1 = Inr s'" "P (Suc n) s'" by auto
  with s1(1) show ?case by (simp add: run_path_append)
qed

text \<open>An exception of the loop is raised by its body, in a state that the loop reached.\<close>

lemma run_path_raises:
  assumes "run_path body [0..<n] s0 = Inl e"
    and "P 0 s0"
    and "\<And>t s s'. t < n \<Longrightarrow> P t s \<Longrightarrow> body t s = Inr s' \<Longrightarrow> P (Suc t) s'"
  shows "\<exists>t s. t < n \<and> P t s \<and> body t s = Inl e"
  using assms
proof (induction n)
  case 0
  then show ?case by simp
next
  case (Suc n)
  show ?case
  proof (cases "run_path body [0..<n] s0")
    case (Inl e')
    with Suc.prems(1) have "e' = e" by (simp add: run_path_append)
    with Inl Suc.IH Suc.prems(2,3) obtain t s where "t < n" "P t s" "body t s = Inl e"
      by (metis less_Suc_eq)
    then show ?thesis by (metis less_Suc_eq)
  next
    case (Inr s1)
    with Suc.prems(1) have b: "body n s1 = Inl e"
      by (simp add: run_path_append split: sum.splits)
    have "P n s1"
      using Inr Suc.prems(2,3) by (intro run_path_invariant [of body n s0 s1 P]) auto
    with b show ?thesis by blast
  qed
qed

section \<open>One grid point of \<^verbatim>\<open>celer_path\<close>\<close>

lemma new_array_eq:
  "new_array v h = ((fresh h, 0), h\<lparr>cells := (cells h)(fresh h := [v]), fresh := Suc (fresh h)\<rparr>)"
  by (simp add: new_array_def alloc_def)

lemma copy_eq:
  "copy r h = ((fresh h, 0), h\<lparr>cells := (cells h)(fresh h := [rd h r]), fresh := Suc (fresh h)\<rparr>)"
  by (simp add: copy_def new_array_eq)

lemma fresh_wr [simp]: "fresh (wr r v h) = fresh h"
  by (simp add: wr_def)


lemma np_assign_same: "length v = n \<Longrightarrow> np_assign n v = Inr v"
  by (simp add: np_assign_def)

lemma np_assign_error: "np_assign n v = Inl e \<Longrightarrow> e = ValueError"
  by (simp add: np_assign_def split: if_splits)

lemma celer_stepE:
  assumes "celer_step K a c t s = Inr s'" and "t < length (ps_dual_gaps s)"
  obtains w Xw theta p0 h h' sol0 sol1 gaps col row where
    "celer_warm_start K a c t s = Inr (w, Xw, theta, p0, h)"
    "k_solve K (celer_call a c t w Xw theta p0) h = (h', (sol0, sol1, gaps))"
    "gaps \<noteq> []"
    "np_assign (length (a_X a)) sol0 = Inr col" "np_assign (a_n_samples a) sol1 = Inr row"
    "s' = \<lparr>ps_heap = wr (c_thetas c, t) row (wr (c_coefs c, t) col h'),
           ps_dual_gaps = (ps_dual_gaps s)[t := last gaps],
           ps_n_iters = map_option (\<lambda>ns. ns[t := length gaps]) (ps_n_iters s),
           ps_Xw = Some Xw,
           ps_events = ps_events s @
             [\<lparr>ev_call = celer_call a c t w Xw theta p0, ev_before = h, ev_after = h',
               ev_sol = (sol0, sol1, gaps)\<rparr>],
           ps_warnings = (if last gaps > a_tol a then ps_warnings s @ [t] else ps_warnings s)\<rparr>"
proof -
  from assms(1) obtain w Xw theta p0 h
    where ws: "celer_warm_start K a c t s = Inr (w, Xw, theta, p0, h)"
    by (auto simp: celer_step_def split: sum.splits)
  obtain h' sol0 sol1 gaps
    where sv: "k_solve K (celer_call a c t w Xw theta p0) h = (h', (sol0, sol1, gaps))"
    by (metis prod_cases3)
  let ?s1 = "s\<lparr>ps_heap := h', ps_Xw := Some Xw, ps_events := ps_events s @
             [\<lparr>ev_call = celer_call a c t w Xw theta p0, ev_before = h, ev_after = h',
               ev_sol = (sol0, sol1, gaps)\<rparr>]\<rparr>"
  from assms(1) ws sv have rec: "celer_record a c t (sol0, sol1, gaps) ?s1 = Inr s'"
    by (simp add: celer_step_def Let_def split: sum.splits)
  then have g: "gaps \<noteq> []" by (auto simp: celer_record_def split: if_splits)
  from rec g obtain col where col: "np_assign (length (a_X a)) sol0 = Inr col"
    by (auto simp: celer_record_def split: sum.splits)
  from rec g col obtain row where row: "np_assign (a_n_samples a) sol1 = Inr row"
    by (auto simp: celer_record_def split: sum.splits)
  from rec g col row assms(2) have
    "s' = \<lparr>ps_heap = wr (c_thetas c, t) row (wr (c_coefs c, t) col h'),
           ps_dual_gaps = (ps_dual_gaps s)[t := last gaps],
           ps_n_iters = map_option (\<lambda>ns. ns[t := length gaps]) (ps_n_iters s),
           ps_Xw = Some Xw,
           ps_events = ps_events s @
             [\<lparr>ev_call = celer_call a c t w Xw theta p0, ev_before = h, ev_after = h',
               ev_sol = (sol0, sol1, gaps)\<rparr>],
           ps_warnings = (if last gaps > a_tol a then ps_warnings s @ [t] else ps_warnings s)\<rparr>"
    by (cases "ps_n_iters s") (auto simp: celer_record_def Let_def)
  with ws sv g col row show ?thesis by (rule that)
qed

lemma first_theta_total:
  assumes "first_theta_ok a pb"
    and "pb = LASSO \<and> a_coef_init a \<noteq> None \<longrightarrow> length Xw = a_n_samples a"
    and "pb = LASSO \<and> a_coef_init a = None \<longrightarrow> length Xw = length (a_y a)"
    and "pb = LOGREG \<longrightarrow> length Xw = a_n_samples a"
  shows "\<exists>th. first_theta K a pb Xw alpha = Inr th"
  using assms
  by (cases pb) (auto simp: first_theta_def first_theta_ok_def XT_dot_def np_broadcast_def Let_def)

lemma first_theta_error: "first_theta K a pb Xw alpha = Inl e \<Longrightarrow> e = ValueError"
  by (cases pb)
     (auto simp: first_theta_def XT_dot_def np_broadcast_def Let_def split: if_splits sum.splits)

lemma celer_warm_start_total:
  assumes "0 < t \<longrightarrow> ps_Xw s \<noteq> None" and "t = 0 \<longrightarrow> first_theta_ok a (c_pb c)"
  shows "\<exists>v. celer_warm_start K a c t s = Inr v"
proof (cases "t = 0")
  case False
  with assms(1) show ?thesis
    by (auto simp: celer_warm_start_def Let_def split: prod.splits option.splits)
next
  case True
  with assms(2) have ok: "first_theta_ok a (c_pb c)" by simp
  show ?thesis
  proof (cases "a_coef_init a")
    case None
    let ?Xw = "if c_pb c = LOGREG then replicate (a_n_samples a) 0 else a_y a"
    have "\<exists>th. first_theta K a (c_pb c) ?Xw (c_alphas c ! 0) = Inr th"
      using None by (intro first_theta_total [OF ok]) auto
    then show ?thesis
      using True None by (auto simp: celer_warm_start_def new_array_eq rd_def)
  next
    case (Some ci)
    let ?Xw = "map (k_compute_Xw K (c_pb c) ci) [0..<a_n_samples a]"
    have "\<exists>th. first_theta K a (c_pb c) ?Xw (c_alphas c ! 0) = Inr th"
      using Some by (intro first_theta_total [OF ok]) auto
    then show ?thesis
      using True Some by (auto simp: celer_warm_start_def new_array_eq rd_def Let_def)
  qed
qed

lemma celer_step_total:
  assumes "0 < t \<longrightarrow> ps_Xw s \<noteq> None" and "t = 0 \<longrightarrow> first_theta_ok a (c_pb c)"
    and "gaps_nonempty K" and "solver_shapes K a"
  shows "\<exists>s'. celer_step K a c t s = Inr s'"
proof -
  from celer_warm_start_total [OF assms(1,2)] obtain w Xw theta p0 h
    where ws: "celer_warm_start K a c t s = Inr (w, Xw, theta, p0, h)"
    by (metis prod_cases5)
  obtain h' sol0 sol1 gaps
    where sv: "k_solve K (celer_call a c t w Xw theta p0) h = (h', (sol0, sol1, gaps))"
    by (metis prod_cases3)
  from assms(3) sv have "gaps \<noteq> []" unfolding gaps_nonempty_def by (metis snd_conv)
  moreover from assms(4) sv have "length sol0 = length (a_X a)" "length sol1 = a_n_samples a"
    unfolding solver_shapes_def by (metis fst_conv snd_conv)+
  ultimately show ?thesis using ws sv
    by (simp add: celer_step_def celer_record_def Let_def np_assign_same)
qed

lemma celer_warm_start_later:
  assumes "celer_warm_start K a c t s = Inr (w, Xw, theta, p0, h)" and "0 < t"
  shows "w = (fresh (ps_heap s), 0)" "theta = (Suc (fresh (ps_heap s)), 0)"
    "ps_Xw s = Some Xw"
    "p0 = max (count_nonzero (rd h w)) 1"
    "rd h w = rd (ps_heap s) (c_coefs c, t - 1)"
    "c_thetas c \<noteq> fresh (ps_heap s) \<Longrightarrow> rd h theta = rd (ps_heap s) (c_thetas c, t - 1)"
    "fresh h = Suc (Suc (fresh (ps_heap s)))"
    "\<And>b. b < fresh (ps_heap s) \<Longrightarrow> cells h b = cells (ps_heap s) b"
  using assms
  by (auto simp: celer_warm_start_def copy_eq rd_def Let_def split: option.splits)

lemma celer_warm_start_first:
  assumes "celer_warm_start K a c 0 s = Inr (w, Xw, theta, p0, h)"
  shows "w = (fresh (ps_heap s), 0)" "Xw = (Suc (fresh (ps_heap s)), 0)"
    "theta = (Suc (Suc (fresh (ps_heap s))), 0)"
    "p0 = (case a_coef_init a of None \<Rightarrow> a_p0 a
           | Some coef_init \<Rightarrow> max (count_nonzero coef_init) (a_p0 a))"
    "rd h w = (case a_coef_init a of None \<Rightarrow> replicate (length (a_X a)) 0
           | Some coef_init \<Rightarrow> coef_init)"
    "fresh h = Suc (Suc (Suc (fresh (ps_heap s))))"
    "\<And>b. b < fresh (ps_heap s) \<Longrightarrow> cells h b = cells (ps_heap s) b"
  using assms
  by (auto simp: celer_warm_start_def new_array_eq rd_def Let_def
      split: option.splits sum.splits)

section \<open>The loop of \<^verbatim>\<open>celer_path\<close>: calls, gaps and warnings\<close>

lemma celer_init_eq:
  "celer_init a pb alphas norms =
     (\<lparr>c_pb = pb, c_alphas = alphas, c_coefs = 0, c_thetas = 1, c_norms = norms\<rparr>,
      \<lparr>ps_heap = \<lparr>cells = (\<lambda>_. [])
                     (0 := replicate (length alphas) (replicate (length (a_X a)) 0),
                      1 := replicate (length alphas) (replicate (a_n_samples a) 0)),
                  fresh = 2\<rparr>,
       ps_dual_gaps = replicate (length alphas) 0,
       ps_n_iters = (if a_return_n_iter a then Some (replicate (length alphas) 0) else None),
       ps_Xw = None, ps_events = [], ps_warnings = []\<rparr>)"
  by (simp add: celer_init_def alloc_def empty_heap_def Let_def numeral_2_eq_2)

lemma path_basic_init:
  assumes "celer_init a pb alphas norms = (c, s0)"
  shows "path_basic K a c 0 s0" "c_alphas c = alphas" "c_pb c = pb"
  using assms by (auto simp: celer_init_eq path_basic_def)

lemma path_basic_step:
  assumes inv: "path_basic K a c t s" and t: "t < length (c_alphas c)"
    and step: "celer_step K a c t s = Inr s'"
  shows "path_basic K a c (Suc t) s'"
proof -
  from inv have len: "length (ps_events s) = t" "length (ps_dual_gaps s) = length (c_alphas c)"
    and old: "\<And>i. i < t \<Longrightarrow> event_ok K a c i (ps_events s ! i) \<and>
                 ps_dual_gaps s ! i = last (ev_gaps (ps_events s ! i))"
    and warn: "ps_warnings s = filter (\<lambda>i. ps_dual_gaps s ! i > a_tol a) [0..<t]"
    and iters: "case ps_n_iters s of
         None \<Rightarrow> \<not> a_return_n_iter a
       | Some ns \<Rightarrow> a_return_n_iter a \<and> length ns = length (c_alphas c) \<and>
           (\<forall>i<t. ns ! i = length (ev_gaps (ps_events s ! i)))"
    by (simp_all add: path_basic_def)
  from t len have tl: "t < length (ps_dual_gaps s)" by simp
  from celer_stepE [OF step tl] obtain w Xw theta p0 h h' sol0 sol1 gaps col row where
    ws: "celer_warm_start K a c t s = Inr (w, Xw, theta, p0, h)" and
    sv: "k_solve K (celer_call a c t w Xw theta p0) h = (h', (sol0, sol1, gaps))" and
    g: "gaps \<noteq> []" and
    col: "np_assign (length (a_X a)) sol0 = Inr col" and
    row: "np_assign (a_n_samples a) sol1 = Inr row" and
    s': "s' = \<lparr>ps_heap = wr (c_thetas c, t) row (wr (c_coefs c, t) col h'),
           ps_dual_gaps = (ps_dual_gaps s)[t := last gaps],
           ps_n_iters = map_option (\<lambda>ns. ns[t := length gaps]) (ps_n_iters s),
           ps_Xw = Some Xw,
           ps_events = ps_events s @
             [\<lparr>ev_call = celer_call a c t w Xw theta p0, ev_before = h, ev_after = h',
               ev_sol = (sol0, sol1, gaps)\<rparr>],
           ps_warnings = (if last gaps > a_tol a then ps_warnings s @ [t] else ps_warnings s)\<rparr>"
    by blast
  let ?e = "\<lparr>ev_call = celer_call a c t w Xw theta p0, ev_before = h, ev_after = h',
               ev_sol = (sol0, sol1, gaps)\<rparr>"
  have call: "sc_alpha (celer_call a c t w Xw theta p0) = c_alphas c ! t"
    "sc_p0 (celer_call a c t w Xw theta p0) = p0" "sc_w (celer_call a c t w Xw theta p0) = w"
    by (simp_all add: celer_call_def)
  have new: "event_ok K a c t ?e"
  proof (cases "t = 0")
    case True
    with ws have "p0 = first_p0 a" "rd h w = first_w a"
      using celer_warm_start_first(4,5) [of K a c s w Xw theta p0 h]
      by (simp_all add: first_p0_def first_w_def)
    with True sv g call show ?thesis by (simp add: event_ok_def ev_gaps_def)
  next
    case False
    with ws have "p0 = max (count_nonzero (rd h w)) 1"
      using celer_warm_start_later(4) [of K a c t s w Xw theta p0 h] by simp
    with False sv g call show ?thesis by (simp add: event_ok_def ev_gaps_def)
  qed
  have ev_nth: "\<And>i. i < t \<Longrightarrow> ps_events s' ! i = ps_events s ! i" "ps_events s' ! t = ?e"
    using len s' by (simp_all add: nth_append)
  have dg_nth: "\<And>i. i < t \<Longrightarrow> ps_dual_gaps s' ! i = ps_dual_gaps s ! i"
    "ps_dual_gaps s' ! t = last gaps"
    using tl s' by simp_all
  have c1: "length (ps_events s') = Suc t" using len s' by simp
  have c2: "length (ps_dual_gaps s') = length (c_alphas c)" using len s' by simp
  have c3: "ps_Xw s' \<noteq> None" using s' by simp
  have c4: "\<forall>i<Suc t. event_ok K a c i (ps_events s' ! i) \<and>
              ps_dual_gaps s' ! i = last (ev_gaps (ps_events s' ! i))"
  proof (intro allI impI)
    fix i assume "i < Suc t"
    then consider "i < t" | "i = t" by linarith
    then show "event_ok K a c i (ps_events s' ! i) \<and>
              ps_dual_gaps s' ! i = last (ev_gaps (ps_events s' ! i))"
    proof cases
      case 1
      then show ?thesis using old [of i] ev_nth(1) [of i] dg_nth(1) [of i] by simp
    next
      case 2
      then show ?thesis using new ev_nth(2) dg_nth(2) by (simp add: ev_gaps_def)
    qed
  qed
  have "filter (\<lambda>i. ps_dual_gaps s' ! i > a_tol a) [0..<t] =
        filter (\<lambda>i. ps_dual_gaps s ! i > a_tol a) [0..<t]"
    by (rule filter_cong) (simp_all add: dg_nth(1))
  then have c5: "ps_warnings s' = filter (\<lambda>i. ps_dual_gaps s' ! i > a_tol a) [0..<Suc t]"
    using warn dg_nth(2) s' by simp
  have c6: "case ps_n_iters s' of
         None \<Rightarrow> \<not> a_return_n_iter a
       | Some ns \<Rightarrow> a_return_n_iter a \<and> length ns = length (c_alphas c) \<and>
           (\<forall>i<Suc t. ns ! i = length (ev_gaps (ps_events s' ! i)))"
  proof (cases "ps_n_iters s")
    case None
    with iters s' show ?thesis by simp
  next
    case (Some ns)
    with iters have ns: "a_return_n_iter a" "length ns = length (c_alphas c)"
      "\<And>i. i < t \<Longrightarrow> ns ! i = length (ev_gaps (ps_events s ! i))" by simp_all
    have "\<forall>i<Suc t. ns[t := length gaps] ! i = length (ev_gaps (ps_events s' ! i))"
    proof (intro allI impI)
      fix i assume "i < Suc t"
      then consider "i < t" | "i = t" by linarith
      then show "ns[t := length gaps] ! i = length (ev_gaps (ps_events s' ! i))"
      proof cases
        case 1
        then show ?thesis using ns(3) [of i] ev_nth(1) [of i] by simp
      next
        case 2
        then show ?thesis using ns(2) t ev_nth(2) by (simp add: ev_gaps_def)
      qed
    qed
    with Some ns s' show ?thesis by simp
  qed
  from c1 c2 c3 c4 c5 c6 show ?thesis by (simp add: path_basic_def)
qed

lemma celer_path_InrD:
  assumes "celer_path K a = Inr r"
  obtains pb part l alphas norms c s0 s where
    "celer_pre K a = Inr (pb, part, l, alphas)" "celer_norms K a l pb part = Inr norms"
    "celer_init a pb alphas norms = (c, s0)"
    "run_path (celer_step K a c) [0..<length alphas] s0 = Inr s" "r = celer_results a c s"
proof -
  from assms obtain pb part l alphas where pre: "celer_pre K a = Inr (pb, part, l, alphas)"
    by (auto simp: celer_path_def split: sum.splits)
  from assms pre obtain norms where ns: "celer_norms K a l pb part = Inr norms"
    by (auto simp: celer_path_def split: sum.splits)
  obtain c s0 where init: "celer_init a pb alphas norms = (c, s0)"
    by (cases "celer_init a pb alphas norms")
  from assms pre ns init obtain s
    where run: "run_path (celer_step K a c) [0..<length alphas] s0 = Inr s"
      and r: "r = celer_results a c s"
    by (auto simp: celer_path_def split: sum.splits)
  from pre ns init run r show ?thesis by (rule that)
qed

lemma celer_path_InrI:
  assumes "celer_setup K a pb alphas norms" "celer_init a pb alphas norms = (c, s0)"
    "run_path (celer_step K a c) [0..<length alphas] s0 = Inr s"
  shows "celer_path K a = Inr (celer_results a c s)"
  using assms by (auto simp: celer_path_def celer_setup_def)


lemma celer_run_total:
  assumes init: "celer_init a pb alphas norms = (c, s0)" and "gaps_nonempty K"
    and "solver_shapes K a" and "first_theta_ok a pb"
  shows "\<exists>s. run_path (celer_step K a c) [0..<length alphas] s0 = Inr s"
proof -
  have "\<exists>s. run_path (celer_step K a c) [0..<length alphas] s0 = Inr s \<and>
            path_basic K a c (length alphas) s"
  proof (rule run_path_total [where P = "path_basic K a c"])
    show "path_basic K a c 0 s0" using init by (rule path_basic_init)
  next
    fix t s assume t: "t < length alphas" and inv: "path_basic K a c t s"
    from inv have "0 < t \<longrightarrow> ps_Xw s \<noteq> None" by (simp add: path_basic_def)
    moreover have "t = 0 \<longrightarrow> first_theta_ok a (c_pb c)"
      using assms(4) path_basic_init(3) [OF init] by simp
    ultimately obtain s' where s': "celer_step K a c t s = Inr s'"
      using celer_step_total [of t s a c K] assms(2,3) by blast
    with t inv have "path_basic K a c (Suc t) s'"
      using path_basic_init(2) [OF init] by (intro path_basic_step) simp_all
    with s' show "\<exists>s'. celer_step K a c t s = Inr s' \<and> path_basic K a c (Suc t) s'" by blast
  qed
  then show ?thesis by blast
qed

lemma celer_path_returns:
  assumes "celer_setup K a pb alphas norms" "gaps_nonempty K" "solver_shapes K a"
  shows "\<exists>r. celer_path K a = Inr r"
proof -
  obtain c s0 where init: "celer_init a pb alphas norms = (c, s0)"
    by (cases "celer_init a pb alphas norms")
  from assms(1) have "first_theta_ok a pb" by (simp add: celer_setup_def)
  from celer_run_total [OF init assms(2,3) this] obtain s
    where "run_path (celer_step K a c) [0..<length alphas] s0 = Inr s" by blast
  from celer_path_InrI [OF assms(1) init this] show ?thesis by blast
qed
section \<open>The loop of \<^verbatim>\<open>celer_path\<close>: the arrays in the store\<close>











section \<open>The exceptions raised before the first solve\<close>




















lemma demo_inputs_shaped: "inputs_shaped demo_args"
  by (simp add: inputs_shaped_def demo_args_def)




subsection \<open>The path of \<^verbatim>\<open>celer_path\<close>: warnings, calls and stored results\<close>









end
